theory Spec2Isabelle
  imports Complex_Main
begin

section \<open>Strings\<close>

text \<open>
  A JavaScript string is modelled as a \<open>string\<close>, one \<open>char\<close> per code unit; the model
  covers the code units below 256. In that range the characters that \<open>trim()\<close> strips and
  that the regular expression class \<open>\s\<close> matches are TAB, LF, VT, FF, CR, SPACE and
  NBSP; the line terminators (excluded by the regular expression \<open>.\<close>) are LF and CR.
\<close>

definition is_space :: "char \<Rightarrow> bool" where
  "is_space c = (of_char c \<in> {9, 10, 11, 12, 13, 32, 160 :: nat})"

definition is_line_terminator :: "char \<Rightarrow> bool" where
  "is_line_terminator c = (of_char c \<in> {10, 13 :: nat})"

definition trim :: "string \<Rightarrow> string" where
  "trim s = rev (dropWhile is_space (rev (dropWhile is_space s)))"

definition startsWith :: "string \<Rightarrow> string \<Rightarrow> bool" where
  "startsWith s p = (take (length p) s = p)"

text \<open>The decimal digits of a number, as a number is written into a string.\<close>

definition digit_char :: "nat \<Rightarrow> char" where
  "digit_char d = char_of (48 + d)"

fun show_nat :: "nat \<Rightarrow> string" where
  "show_nat n = (if n < 10 then [digit_char n] else show_nat (n div 10) @ [digit_char (n mod 10)])"

declare show_nat.simps [simp del]

section \<open>Settings page: the provider list\<close>

record provider =
  provider_id :: string
  name :: string
  provider_kind :: string
  api_key :: string
  api_url :: "string option"
  model :: string
  system_prompt :: "string option"
  is_default :: bool

text \<open>\<open>createEmptyProvider\<close>; the generated identifier is an argument.\<close>

definition createEmptyProvider :: "string \<Rightarrow> bool \<Rightarrow> provider" where
  "createEmptyProvider fresh isDefault =
     \<lparr> provider_id = fresh, name = [], provider_kind = ''custom'', api_key = [],
       api_url = Some ''https://dashscope.aliyuncs.com/compatible-mode/v1/chat/completions'',
       model = [], system_prompt = Some [], is_default = isDefault \<rparr>"

text \<open>
  \<open>normalizeProviders\<close> maps over the list with the index and a mutable flag
  \<open>defaultAssigned\<close>; the flag and the index are threaded through the recursion.
\<close>

fun normalize_from :: "nat \<Rightarrow> bool \<Rightarrow> provider list \<Rightarrow> provider list" where
  "normalize_from index defaultAssigned [] = []"
| "normalize_from index defaultAssigned (p # ps) =
     (if is_default p then
        (if defaultAssigned
         then p\<lparr>is_default := False\<rparr> # normalize_from (Suc index) defaultAssigned ps
         else p # normalize_from (Suc index) True ps)
      else if \<not> defaultAssigned \<and> index = 0
        then p\<lparr>is_default := True\<rparr> # normalize_from (Suc index) True ps
      else p # normalize_from (Suc index) defaultAssigned ps)"

definition normalizeProviders :: "provider list \<Rightarrow> provider list" where
  "normalizeProviders providers =
     (if length providers = 0 then providers else normalize_from 0 False providers)"

definition handleSetDefault :: "string \<Rightarrow> provider list \<Rightarrow> provider list" where
  "handleSetDefault i prev = map (\<lambda>p. p\<lparr>is_default := (provider_id p = i)\<rparr>) prev"

text \<open>\<open>filtered.map((provider, index) => index === 0 ? {...provider, is_default: true} : provider)\<close>\<close>

fun promote_first :: "provider list \<Rightarrow> provider list" where
  "promote_first [] = []"
| "promote_first (p # ps) = p\<lparr>is_default := True\<rparr> # ps"

definition handleRemoveProvider :: "string \<Rightarrow> string \<Rightarrow> provider list \<Rightarrow> provider list" where
  "handleRemoveProvider fresh i prev =
     (let filtered = filter (\<lambda>p. provider_id p \<noteq> i) prev in
      if length filtered = 0 then [createEmptyProvider fresh True]
      else if \<not> list_ex is_default filtered then promote_first filtered
      else filtered)"

definition handleAddProvider :: "string \<Rightarrow> provider list \<Rightarrow> provider list" where
  "handleAddProvider fresh prev = prev @ [createEmptyProvider fresh (length prev = 0)]"

text \<open>The number of providers marked as default.\<close>

definition default_count :: "provider list \<Rightarrow> nat" where
  "default_count ps = length (filter is_default ps)"

text \<open>Two providers as the settings page holds them after the second was chosen as default.\<close>

definition provider_a :: provider where
  "provider_a = \<lparr> provider_id = ''a'', name = ''A'', provider_kind = ''custom'', api_key = ''k'',
     api_url = None, model = ''m'', system_prompt = None, is_default = False \<rparr>"

definition provider_b :: provider where
  "provider_b = \<lparr> provider_id = ''b'', name = ''B'', provider_kind = ''custom'', api_key = ''k'',
     api_url = None, model = ''m'', system_prompt = None, is_default = True \<rparr>"

section \<open>The streaming client (\<open>testPromptStream\<close>)\<close>

text \<open>
  A value produced by \<open>JSON.parse\<close>. An object is the list of its properties; the library
  function \<open>JSON.parse\<close> itself is an argument \<open>parse\<close> of the model, \<open>None\<close> standing
  for the \<open>SyntaxError\<close> it throws.
\<close>

datatype jsvalue =
  JNull
| JBool bool
| JNumber rat
| JString string
| JArray "jsvalue list"
| JObject "(string \<times> jsvalue) list"

type_synonym json_parse = "string \<Rightarrow> jsvalue option"

text \<open>\<open>chunk.split('\n')\<close>: the pieces between separators; an empty string gives one empty piece.\<close>

fun split_on :: "char \<Rightarrow> string \<Rightarrow> string list" where
  "split_on d [] = [[]]"
| "split_on d (c # cs) =
     (if c = d then [] # split_on d cs
      else (case split_on d cs of [] \<Rightarrow> [[c]] | l # ls \<Rightarrow> (c # l) # ls))"

text \<open>
  The body of the loop over the lines of a chunk: the values passed to \<open>onData\<close> for one
  line. \<open>json && typeof json === 'object' && 'text' in json\<close> holds for an object with a
  property \<open>text\<close> only (it fails for \<open>null\<close>, for primitives and for arrays).
\<close>

definition process_line :: "json_parse \<Rightarrow> string \<Rightarrow> jsvalue list" where
  "process_line parse line =
     (let trimmedLine = trim line in
      if trimmedLine = [] then []
      else if startsWith trimmedLine ''data:'' then
        (let data = drop 5 trimmedLine;
             content = (if startsWith data '' '' then drop 1 data else data)
         in if content \<noteq> [] then
              (case parse content of
                 Some (JObject props) \<Rightarrow>
                   (case map_of props ''text'' of
                      Some v \<Rightarrow> [v]
                    | None \<Rightarrow> [JString content])
               | _ \<Rightarrow> [JString content])
            else [])
      else [])"

definition process_chunk :: "json_parse \<Rightarrow> string \<Rightarrow> jsvalue list" where
  "process_chunk parse chunk = concat (map (process_line parse) (split_on (CHR 0x0A) chunk))"

text \<open>
  What one \<open>reader.read()\<close> settles to: a decoded chunk, the end of the stream, or a
  rejection with the error's name and message. \<open>controller.abort()\<close> rejects the pending
  \<open>fetch\<close> or \<open>read\<close> with an error named \<open>AbortError\<close>.
\<close>

datatype read_result = ReadValue string | ReadDone | ReadRejected string string

datatype callback = OnData jsvalue | OnError string | OnComplete

text \<open>The \<open>.catch\<close> handler.\<close>

definition catch_handler :: "string \<Rightarrow> string \<Rightarrow> callback list" where
  "catch_handler err_name err_message =
     (if err_name = ''AbortError'' then [] else [OnError err_message])"

text \<open>
  The \<open>while (true)\<close> loop over the results of the successive reads, and the call of
  \<open>onComplete\<close> (when one was passed) after it. A list of reads that ends without
  \<open>ReadDone\<close> or a rejection is a stream whose next read never settles.
\<close>

fun read_loop :: "json_parse \<Rightarrow> bool \<Rightarrow> read_result list \<Rightarrow> callback list" where
  "read_loop parse has_onComplete [] = []"
| "read_loop parse has_onComplete (ReadValue chunk # rest) =
     map OnData (process_chunk parse chunk) @ read_loop parse has_onComplete rest"
| "read_loop parse has_onComplete (ReadDone # rest) =
     (if has_onComplete then [OnComplete] else [])"
| "read_loop parse has_onComplete (ReadRejected err_name err_message # rest) =
     catch_handler err_name err_message"












section \<open>The playground page (\<open>TestPrompt\<close>): history and the active stream\<close>

record message =
  message_id :: string
  role :: string
  content :: string

text \<open>
  A saved session (\<open>PromptTestHistory\<close>) with the fields the page's list handling reads;
  the model parameters, token count and prices (floating-point numbers) are carried by
  the server's record and are not part of the model.
\<close>

record history =
  history_id :: string
  title :: "string option"
  messages :: "message list"
  response :: "string option"
  variable_prefix :: "string option"
  variable_suffix :: "string option"

text \<open>The request body of \<open>savePromptTestHistory\<close>, restricted in the same way.\<close>

record save_payload =
  payload_messages :: "message list"
  payload_response :: string
  payload_variable_prefix :: string
  payload_variable_suffix :: string

text \<open>
  An update of the state variable \<open>response\<close> that has been queued and not yet run:
  \<open>setResponse(prev => ...)\<close> of \<open>onData\<close>, which appends a text, and \<open>setResponse\<close>
  with a value.
\<close>

datatype response_update = AppendText string | SetResponse string

text \<open>
  The state of the page that the handlers below read and write. \<open>prompt_id\<close> is the route
  parameter \<open>id\<close>. A stream is named by a number; \<open>streamAbort\<close> holds the number of the
  stream its abort function cancels. \<open>open_streams\<close> is not a variable of the program: it
  lists the streams started and neither finished, failed nor aborted, that is the streams
  that can still call back. \<open>snapshots\<close> keeps, for each stream, the messages and
  delimiters captured by the closures passed to it. \<open>save_requests\<close> collects the
  requests sent to \<open>savePromptTestHistory\<close> and not yet settled. \<open>response_text\<close> is the
  state variable \<open>response\<close> as last rendered, \<open>pending_response\<close> the updates of it
  queued since, and \<open>responseRef\<close> the content of the ref, which is written at once.
\<close>

record test_state =
  prompt_id :: "string option"
  histories :: "history list"
  selectedHistoryId :: "string option"
  historyError :: "string option"
  current_messages :: "message list"
  variablePrefix :: string
  variableSuffix :: string
  variables :: "string list"
  response_text :: string
  responseRef :: string
  loading :: bool
  streamAbort :: "nat option"
  open_streams :: "nat list"
  started :: nat
  snapshots :: "(nat \<times> save_payload) list"
  save_requests :: "save_payload list"
  pending_response :: "response_update list"

text \<open>\<open>!id\<close> for \<open>id: string | undefined\<close>: true for \<open>undefined\<close> and for the empty string.\<close>

definition no_id :: "string option \<Rightarrow> bool" where
  "no_id i = (case i of None \<Rightarrow> True | Some s \<Rightarrow> s = [])"

text \<open>
  \<open>persistHistory\<close> up to its \<open>await\<close>: the guard, and the request it sends when the
  guard lets it through (the tokenizer, which counts the tokens of the request, is taken
  to return).
\<close>

definition persistHistory_request :: "save_payload \<Rightarrow> string \<Rightarrow> test_state \<Rightarrow> save_payload option" where
  "persistHistory_request snapshot finalResponse st =
     (if no_id (prompt_id st) \<or> trim finalResponse = [] then None
      else Some (snapshot\<lparr>payload_response := finalResponse\<rparr>))"

text \<open>
  \<open>persistHistory\<close> after its \<open>await\<close>: on success the saved record is put in front of
  the list, an older entry with the same identifier is removed, and the list is cut to 30
  entries (\<open>[saved, ...filtered].slice(0, 30)\<close>); a failed save is logged and changes
  nothing.
\<close>

definition persistHistory_settle :: "string + history \<Rightarrow> test_state \<Rightarrow> test_state" where
  "persistHistory_settle outcome st =
     (case outcome of
        Inl err \<Rightarrow> st
      | Inr saved \<Rightarrow>
          st\<lparr> histories :=
                 take 30 (saved # filter (\<lambda>item. history_id item \<noteq> history_id saved) (histories st)),
               selectedHistoryId := Some (history_id saved),
               historyError := None \<rparr>)"


text \<open>A run of successful saves, one after the other.\<close>

definition save_all :: "history list \<Rightarrow> test_state \<Rightarrow> test_state" where
  "save_all saves st = foldl (\<lambda>s saved. persistHistory_settle (Inr saved) s) st saves"

text \<open>
  What happens to the page. \<open>HandleTest no_providers\<close> is a click on the test button,
  with the value of \<open>!providerLoading && providers.length === 0\<close>; the three stream events
  are the callbacks \<open>onData\<close>, \<open>onError\<close> and \<open>onComplete\<close> of the named stream;
  \<open>SaveSettled\<close> is the answer to the oldest pending save request; \<open>Render\<close> is React
  running the queued updates of \<open>response\<close>, which it may do at once or after further
  events; \<open>HandleHistorySelect now h\<close> is a click on the history record \<open>h\<close> at the time
  \<open>now\<close>. \<open>OtherHandler\<close>
  stands for every other handler and effect of the page (editing the messages, selecting,
  renaming, deleting or reloading history records, changing the settings): such a handler
  may write any variable except \<open>loading\<close> and \<open>streamAbort\<close>, which only
  \<open>handleTest\<close> and the callbacks of a stream write, and it neither starts nor ends a
  stream or a save.
\<close>

datatype ui_event =
  HandleTest bool
| StreamData nat string
| StreamError nat string
| StreamComplete nat
| SaveSettled "string + history"
| HandleStartNewTest
| OtherHandler "test_state \<Rightarrow> test_state"
| Render
| HandleHistorySelect nat history

text \<open>
  What the closures of a stream capture when it is started: the messages (each with the
  identifier it has; every message of the page has one) and the delimiters.
\<close>

definition snapshot_of :: "test_state \<Rightarrow> save_payload" where
  "snapshot_of st =
     \<lparr> payload_messages = current_messages st, payload_response = [],
       payload_variable_prefix = variablePrefix st, payload_variable_suffix = variableSuffix st \<rparr>"

text \<open>
  \<open>handleTest\<close>. While \<open>loading\<close>, the click aborts the stream held in \<open>streamAbort\<close>
  and returns; otherwise it resets the response (\<open>setResponse('')\<close> is queued, the ref is
  cleared at once) and starts a stream, whose abort function it stores. The click reads
  \<open>loading\<close> and \<open>streamAbort\<close> as rendered; React renders the updates made by a click
  before the next click is handled, and these two variables are taken as rendered after
  every step.
\<close>

definition handleTest :: "bool \<Rightarrow> test_state \<Rightarrow> test_state" where
  "handleTest no_providers st =
     (if loading st then
        (case streamAbort st of
           Some h \<Rightarrow> st\<lparr> open_streams := removeAll h (open_streams st),
                          streamAbort := None, loading := False \<rparr>
         | None \<Rightarrow> st\<lparr> loading := False \<rparr>)
      else if no_providers then st
      else
        (let n = started st in
         st\<lparr> loading := True,
             pending_response := pending_response st @ [SetResponse []], responseRef := [],
             selectedHistoryId := None,
             open_streams := n # open_streams st, started := Suc n,
             snapshots := (n, snapshot_of st) # snapshots st,
             streamAbort := Some n \<rparr>))"

text \<open>
  The callbacks of a stream. A stream that is not open makes no callback: after
  \<open>onError\<close> or \<open>onComplete\<close> the reader has returned, and after \<open>controller.abort()\<close>
  the rejection is an \<open>AbortError\<close>, which is only logged. \<open>onData\<close> only queues its
  update: the ref is written inside the updater, when React runs it. \<open>onComplete\<close> reads
  the ref as it is at that moment.
\<close>

definition onData :: "nat \<Rightarrow> string \<Rightarrow> test_state \<Rightarrow> test_state" where
  "onData n text st =
     (if n \<in> set (open_streams st)
      then st\<lparr> pending_response := pending_response st @ [AppendText text] \<rparr>
      else st)"

text \<open>
  Running one queued update on the pair of the value of \<open>response\<close> and the content of
  the ref: the updater of \<open>onData\<close> computes \<open>next = prev + text\<close> and writes it to the
  ref; setting a value leaves the ref alone.
\<close>

fun run_update :: "string \<times> string \<Rightarrow> response_update \<Rightarrow> string \<times> string" where
  "run_update (prev, ref) (AppendText text) = (prev @ text, prev @ text)"
| "run_update (prev, ref) (SetResponse v) = (v, ref)"

text \<open>
  A render: the queued updates run in order, and when \<open>response\<close> has changed the effect
  \<open>responseRef.current = response\<close> runs.
\<close>

definition render :: "test_state \<Rightarrow> test_state" where
  "render st =
     (let result = foldl run_update (response_text st, responseRef st) (pending_response st)
      in st\<lparr> response_text := fst result,
              responseRef := (if fst result \<noteq> response_text st then fst result else snd result),
              pending_response := [] \<rparr>)"

definition onError :: "nat \<Rightarrow> string \<Rightarrow> test_state \<Rightarrow> test_state" where
  "onError n err st =
     (if n \<in> set (open_streams st)
      then st\<lparr> loading := False, streamAbort := None,
               open_streams := removeAll n (open_streams st) \<rparr>
      else st)"

definition onComplete :: "nat \<Rightarrow> test_state \<Rightarrow> test_state" where
  "onComplete n st =
     (if n \<in> set (open_streams st) then
        (let st' = st\<lparr> loading := False, streamAbort := None,
                       open_streams := removeAll n (open_streams st) \<rparr>
         in case map_of (snapshots st) n of
              None \<Rightarrow> st'
            | Some snapshot \<Rightarrow>
                (case persistHistory_request snapshot (responseRef st) st' of
                   None \<Rightarrow> st'
                 | Some request \<Rightarrow> st'\<lparr> save_requests := save_requests st' @ [request] \<rparr>))
      else st)"

definition handleStartNewTest :: "test_state \<Rightarrow> test_state" where
  "handleStartNewTest st =
     st\<lparr> selectedHistoryId := None,
         pending_response := pending_response st @ [SetResponse []], responseRef := [] \<rparr>"

text \<open>
  \<open>normalizeHistoryMessages\<close>, with the value of \<open>Date.now()\<close>. A message without an
  identifier has the empty one; a record without messages has the empty list.
\<close>

definition normalizeHistoryMessages :: "nat \<Rightarrow> message list \<Rightarrow> message list" where
  "normalizeHistoryMessages now historyMessages =
     (if historyMessages = [] then
        [\<lparr> message_id = ''system-'' @ show_nat now, role = ''system'', content = [] \<rparr>,
         \<lparr> message_id = ''user-'' @ show_nat (now + 1), role = ''user'', content = [] \<rparr>]
      else
        map (\<lambda>(index, msg).
               let r = (if role msg = ''system'' \<or> role msg = ''assistant'' then role msg
                        else ''user'')
               in \<lparr> message_id = (if message_id msg \<noteq> [] then message_id msg
                                    else r @ ''-'' @ show_nat (now + index)),
                     role = r, content = content msg \<rparr>)
            (enumerate 0 historyMessages))"

text \<open>
  \<open>handleHistorySelect\<close>: the record's messages, delimiters and response are put back;
  the response is queued with \<open>setResponse\<close> and written to the ref at once. The handler
  does not look at \<open>loading\<close>. The variable values, prices, provider and model settings
  that it restores as well are not in the state of the model.
\<close>

definition handleHistorySelect :: "nat \<Rightarrow> history \<Rightarrow> test_state \<Rightarrow> test_state" where
  "handleHistorySelect now h st =
     (let restoredResponse = (case response h of None \<Rightarrow> [] | Some r \<Rightarrow> r)
      in st\<lparr> selectedHistoryId := Some (history_id h),
              current_messages := normalizeHistoryMessages now (messages h),
              variablePrefix := (case variable_prefix h of None \<Rightarrow> variablePrefix st | Some v \<Rightarrow> v),
              variableSuffix := (case variable_suffix h of None \<Rightarrow> variableSuffix st | Some v \<Rightarrow> v),
              pending_response := pending_response st @ [SetResponse restoredResponse],
              responseRef := restoredResponse \<rparr>)"

fun ui_step :: "test_state \<Rightarrow> ui_event \<Rightarrow> test_state" where
  "ui_step st (HandleTest no_providers) = handleTest no_providers st"
| "ui_step st (StreamData n text) = onData n text st"
| "ui_step st (StreamError n err) = onError n err st"
| "ui_step st (StreamComplete n) = onComplete n st"
| "ui_step st (SaveSettled outcome) =
     (case save_requests st of
        [] \<Rightarrow> st
      | request # pending \<Rightarrow> persistHistory_settle outcome (st\<lparr> save_requests := pending \<rparr>))"
| "ui_step st HandleStartNewTest = handleStartNewTest st"
| "ui_step st (OtherHandler f) =
     (f st)\<lparr> prompt_id := prompt_id st, loading := loading st, streamAbort := streamAbort st,
              open_streams := open_streams st, started := started st,
              snapshots := snapshots st, save_requests := save_requests st \<rparr>"
| "ui_step st Render = render st"
| "ui_step st (HandleHistorySelect now h) = handleHistorySelect now h st"

definition ui_run :: "test_state \<Rightarrow> ui_event list \<Rightarrow> test_state" where
  "ui_run st events = foldl ui_step st events"

text \<open>The page as it is mounted: nothing loading, no stream.\<close>

definition initial_state :: "string option \<Rightarrow> history list \<Rightarrow> test_state" where
  "initial_state i loaded =
     \<lparr> prompt_id = i, histories = loaded, selectedHistoryId = None, historyError = None,
       current_messages =
         [\<lparr> message_id = ''system-1'', role = ''system'', content = [] \<rparr>,
          \<lparr> message_id = ''user-1'', role = ''user'', content = [] \<rparr>],
       variablePrefix = ''{{'', variableSuffix = ''}}'', variables = [],
       response_text = [], responseRef = [], loading = False, streamAbort = None,
       open_streams = [], started = 0, snapshots = [], save_requests = [],
       pending_response = [] \<rparr>"


text \<open>
  The browser session. Leaving the page unmounts it, and no effect of the page returns a
  cleanup function: the stream the page has started is not aborted and stays open. Opening
  the page again mounts it with the initial values of its state; the streams left behind
  are the \<open>orphans\<close>. Their callbacks go to the unmounted page and change nothing in the
  mounted one; \<open>OrphanEnds\<close> is such a stream coming to its end.
\<close>

record session =
  page :: test_state
  orphans :: "nat list"

datatype session_event =
  PageEvent ui_event
| LeaveAndReturn "string option" "history list"
| OrphanEnds nat

definition mount :: "string option \<Rightarrow> history list \<Rightarrow> session" where
  "mount i loaded = \<lparr> page = initial_state i loaded, orphans = [] \<rparr>"

fun session_step :: "session \<Rightarrow> session_event \<Rightarrow> session" where
  "session_step s (PageEvent e) = s\<lparr> page := ui_step (page s) e \<rparr>"
| "session_step s (LeaveAndReturn i loaded) =
     \<lparr> page = (initial_state i loaded)\<lparr> started := started (page s) \<rparr>,
       orphans = orphans s @ open_streams (page s) \<rparr>"
| "session_step s (OrphanEnds n) = s\<lparr> orphans := removeAll n (orphans s) \<rparr>"

definition session_run :: "session \<Rightarrow> session_event list \<Rightarrow> session" where
  "session_run s events = foldl session_step s events"



section \<open>The playground page: variable extraction\<close>

text \<open>
  The effect builds the regular expression \<open>P\s*(.+?)\s*S\<close> with the flag \<open>g\<close>, where
  \<open>P\<close> and \<open>S\<close> are the prefix and the suffix with every special character escaped by
  \<open>escapeRegExp\<close>, so that both match literally. The functions below are the backtracking
  matcher for this expression: a greedy \<open>\s*\<close> tries the longest run of white space first
  and gives characters back one at a time; the lazy \<open>.+?\<close> takes one character that is not
  a line terminator and tries the rest of the expression before it takes another.
\<close>

definition literal_at :: "string \<Rightarrow> string \<Rightarrow> string option" where
  "literal_at lit s = (if startsWith s lit then Some (drop (length lit) s) else None)"

text \<open>\<open>\s*S\<close>: the text left after the suffix.\<close>

fun ws_then_suffix :: "string \<Rightarrow> string \<Rightarrow> string option" where
  "ws_then_suffix S [] = literal_at S []"
| "ws_then_suffix S (c # cs) =
     (if is_space c then
        (case ws_then_suffix S cs of
           Some rest \<Rightarrow> Some rest
         | None \<Rightarrow> literal_at S (c # cs))
      else literal_at S (c # cs))"

text \<open>\<open>(.+?)\s*S\<close>: the captured group and the text left after the suffix.\<close>

fun lazy_group :: "string \<Rightarrow> string \<Rightarrow> (string \<times> string) option" where
  "lazy_group S [] = None"
| "lazy_group S (c # cs) =
     (if is_line_terminator c then None
      else (case ws_then_suffix S cs of
              Some rest \<Rightarrow> Some ([c], rest)
            | None \<Rightarrow>
                (case lazy_group S cs of
                   Some (g, rest) \<Rightarrow> Some (c # g, rest)
                 | None \<Rightarrow> None)))"

text \<open>\<open>\s*(.+?)\s*S\<close>\<close>

fun ws_then_group :: "string \<Rightarrow> string \<Rightarrow> (string \<times> string) option" where
  "ws_then_group S [] = lazy_group S []"
| "ws_then_group S (c # cs) =
     (if is_space c then
        (case ws_then_group S cs of
           Some r \<Rightarrow> Some r
         | None \<Rightarrow> lazy_group S (c # cs))
      else lazy_group S (c # cs))"

text \<open>The whole expression, matched at the head of the text.\<close>

definition match_here :: "string \<Rightarrow> string \<Rightarrow> string \<Rightarrow> (string \<times> string) option" where
  "match_here P S s =
     (case literal_at P s of
        None \<Rightarrow> None
      | Some r \<Rightarrow> ws_then_group S r)"

text \<open>
  \<open>globalRegex.exec\<close>: the first match at or after the current position (\<open>lastIndex\<close>),
  the text given being the text from that position on.
\<close>

fun exec_scan :: "string \<Rightarrow> string \<Rightarrow> string \<Rightarrow> (string \<times> string) option" where
  "exec_scan P S [] = match_here P S []"
| "exec_scan P S (c # cs) =
     (case match_here P S (c # cs) of
        Some r \<Rightarrow> Some r
      | None \<Rightarrow> exec_scan P S cs)"

lemma literal_at_length: "literal_at lit s = Some r \<Longrightarrow> length r \<le> length s"
  by (auto simp: literal_at_def split: if_splits)

lemma ws_then_suffix_length: "ws_then_suffix S s = Some r \<Longrightarrow> length r \<le> length s"
  by (induction s) (auto split: if_splits option.splits dest: literal_at_length)

lemma lazy_group_length: "lazy_group S s = Some (g, r) \<Longrightarrow> length r < length s"
  by (induction s arbitrary: g)
    (fastforce split: if_splits option.splits dest: ws_then_suffix_length)+

lemma ws_then_group_length: "ws_then_group S s = Some (g, r) \<Longrightarrow> length r < length s"
proof (induction s)
  case Nil
  then show ?case by simp
next
  case (Cons c cs)
  show ?case
  proof (cases "is_space c \<and> ws_then_group S cs \<noteq> None")
    case True
    with Cons.prems have "ws_then_group S cs = Some (g, r)" by auto
    then have "length r < length cs" by (rule Cons.IH)
    then show ?thesis by simp
  next
    case False
    with Cons.prems have "lazy_group S (c # cs) = Some (g, r)"
      by (auto split: if_splits option.splits)
    then show ?thesis by (rule lazy_group_length)
  qed
qed

lemma match_here_length: "match_here P S s = Some (g, r) \<Longrightarrow> length r < length s"
  by (auto simp: match_here_def split: option.splits
      dest!: literal_at_length ws_then_group_length)

lemma exec_scan_length: "exec_scan P S s = Some (g, r) \<Longrightarrow> length r < length s"
  by (induction s) (fastforce split: option.splits dest: match_here_length)+

text \<open>
  The loop \<open>while ((match = globalRegex.exec(msg.content)) !== null)\<close>: the captured
  groups of the successive matches, each search starting where the last match ended.
\<close>

function all_captures :: "string \<Rightarrow> string \<Rightarrow> string \<Rightarrow> string list" where
  "all_captures P S s =
     (case exec_scan P S s of
        None \<Rightarrow> []
      | Some (g, rest) \<Rightarrow> g # all_captures P S rest)"
  by pat_completeness auto
termination
  by (relation "measure (\<lambda>(P, S, s). length s)") (auto dest: exec_scan_length)

declare all_captures.simps [simp del]

text \<open>\<open>vars.add\<close> on a \<open>Set\<close>, which keeps the order of first insertion.\<close>

definition add_var :: "string list \<Rightarrow> string \<Rightarrow> string list" where
  "add_var vars v = (if v \<in> set vars then vars else vars @ [v])"

text \<open>
  The loop over the messages: every captured group is non-empty, so \<open>if (match[1])\<close>
  holds, and the group is added with its white space trimmed.
\<close>

definition extract_variables :: "string \<Rightarrow> string \<Rightarrow> message list \<Rightarrow> string list" where
  "extract_variables P S msgs =
     foldl add_var [] (concat (map (\<lambda>msg. map trim (all_captures P S (content msg))) msgs))"

text \<open>
  The effect itself: with an empty prefix or suffix it returns before \<open>setVariables\<close>, and
  the list of variables stays as it was.
\<close>

definition extract_effect :: "test_state \<Rightarrow> test_state" where
  "extract_effect st =
     (if variablePrefix st = [] \<or> variableSuffix st = [] then st
      else st\<lparr> variables :=
                 extract_variables (variablePrefix st) (variableSuffix st) (current_messages st) \<rparr>)"

text \<open>
  The specification's wording: the names are the texts between a prefix and the nearest
  suffix that follows it, trimmed. \<open>find_literal\<close> gives the text before and after the
  first occurrence of a literal; \<open>spec_placeholders\<close> takes the first prefix, the nearest
  suffix after it, and goes on behind that suffix.
\<close>

fun find_literal :: "string \<Rightarrow> string \<Rightarrow> (string \<times> string) option" where
  "find_literal lit [] = (if lit = [] then Some ([], []) else None)"
| "find_literal lit (c # cs) =
     (if startsWith (c # cs) lit then Some ([], drop (length lit) (c # cs))
      else (case find_literal lit cs of
              Some (before, after) \<Rightarrow> Some (c # before, after)
            | None \<Rightarrow> None))"

lemma find_literal_length:
  "find_literal lit s = Some (b, a) \<Longrightarrow> length a + length lit \<le> length s"
  by (induction s arbitrary: b)
    (fastforce simp: startsWith_def split: if_splits option.splits)+

function spec_placeholders :: "string \<Rightarrow> string \<Rightarrow> string \<Rightarrow> string list" where
  "spec_placeholders P S s =
     (if P = [] \<or> S = [] then []
      else (case find_literal P s of
              None \<Rightarrow> []
            | Some (before, after_prefix) \<Rightarrow>
                (case find_literal S after_prefix of
                   None \<Rightarrow> []
                 | Some (between, rest) \<Rightarrow> between # spec_placeholders P S rest)))"
  by pat_completeness auto
termination
proof (relation "measure (\<lambda>(P, S, s). length s)")
  show "wf (measure (\<lambda>(P, S, s). length s))" by simp
next
  fix P S s :: string and x2 before after_prefix x2a between rest
  assume "\<not> (P = [] \<or> S = [])" "find_literal P s = Some x2" "(before, after_prefix) = x2"
    "find_literal S after_prefix = Some x2a" "(between, rest) = x2a"
  then have "length after_prefix + length P \<le> length s" "length rest + length S \<le> length after_prefix"
    "P \<noteq> []"
    using find_literal_length[of P s before after_prefix]
      find_literal_length[of S after_prefix between rest] by auto
  then have "length rest < length s" by (cases P) auto
  then show "((P, S, rest), P, S, s) \<in> measure (\<lambda>(P, S, s). length s)" by simp
qed

declare spec_placeholders.simps [simp del]

definition spec_variables :: "string \<Rightarrow> string \<Rightarrow> message list \<Rightarrow> string set" where
  "spec_variables P S msgs =
     set (map trim (concat (map (\<lambda>msg. spec_placeholders P S (content msg)) msgs)))"

text \<open>
  A placeholder text that the expression captures as the specification reads it: not
  blank, and on one line once trimmed.
\<close>

definition plain_placeholder :: "string \<Rightarrow> bool" where
  "plain_placeholder between =
     (trim between \<noteq> [] \<and> \<not> list_ex is_line_terminator (trim between))"

definition plain_message :: "string \<Rightarrow> string \<Rightarrow> message \<Rightarrow> bool" where
  "plain_message P S msg = list_all plain_placeholder (spec_placeholders P S (content msg))"

section \<open>The versioning rule\<close>

text \<open>
  Modelled from the spec: the version service of the backend is not among the sources.
  The specification (section 4.1) gives the rule: a version string of numeric components
  and a bump kind give the next version, by incrementing the component of that kind and
  zeroing the lower ones; the kind none leaves the version unchanged; a malformed existing
  version fails the operation. A version is read here as three components, major, minor
  and patch, written in decimal digits and separated by dots, as in the specification's
  example \<open>1.2.3\<close>.
\<close>

datatype bump_kind = Major | Minor | Patch | NoBump

type_synonym version = "nat \<times> nat \<times> nat"

definition is_digit :: "char \<Rightarrow> bool" where
  "is_digit c = (48 \<le> (of_char c :: nat) \<and> (of_char c :: nat) \<le> 57)"

definition digits_value :: "string \<Rightarrow> nat" where
  "digits_value ds = foldl (\<lambda>acc c. 10 * acc + (of_char c - 48)) 0 ds"

definition parse_component :: "string \<Rightarrow> nat option" where
  "parse_component ds = (if ds \<noteq> [] \<and> list_all is_digit ds then Some (digits_value ds) else None)"

text \<open>Modelled from the spec: reading a version string, \<open>None\<close> for a malformed one.\<close>

definition parse_version :: "string \<Rightarrow> version option" where
  "parse_version v =
     (case split_on (CHR ''.'') v of
        [x, y, z] \<Rightarrow>
          (case parse_component x of
             None \<Rightarrow> None
           | Some a \<Rightarrow>
               (case parse_component y of
                  None \<Rightarrow> None
                | Some b \<Rightarrow>
                    (case parse_component z of
                       None \<Rightarrow> None
                     | Some c \<Rightarrow> Some (a, b, c))))
      | _ \<Rightarrow> None)"

definition render_version :: "version \<Rightarrow> string" where
  "render_version v =
     (case v of (a, b, c) \<Rightarrow> show_nat a @ ''.'' @ show_nat b @ ''.'' @ show_nat c)"

text \<open>
  Modelled from the spec: incrementing the component of the bump kind and zeroing the
  lower components.
\<close>

fun bump_components :: "bump_kind \<Rightarrow> version \<Rightarrow> version" where
  "bump_components Major (a, b, c) = (a + 1, 0, 0)"
| "bump_components Minor (a, b, c) = (a, b + 1, 0)"
| "bump_components Patch (a, b, c) = (a, b, c + 1)"
| "bump_components NoBump (a, b, c) = (a, b, c)"

text \<open>
  Modelled from the spec: the bump function on version strings. A malformed version is
  an error (\<open>Inl\<close>, with the message), whatever the kind; the kind none gives the string
  back as it is.
\<close>

definition bump_version :: "bump_kind \<Rightarrow> string \<Rightarrow> string + string" where
  "bump_version kind v =
     (case parse_version v of
        None \<Rightarrow> Inl (''invalid version: '' @ v)
      | Some x \<Rightarrow> if kind = NoBump then Inr v else Inr (render_version (bump_components kind x)))"

text \<open>The order of versions: major first, then minor, then patch.\<close>

definition version_less :: "version \<Rightarrow> version \<Rightarrow> bool" where
  "version_less v w =
     (case v of (a, b, c) \<Rightarrow> case w of (a', b', c') \<Rightarrow>
        a < a' \<or> (a = a' \<and> (b < b' \<or> (b = b' \<and> c < c'))))"

text \<open>
  Modelled from the spec: the prompt update of the backend, which is not among the
  sources. The stored prompt has its version, its content and its history log; an update
  bumps the version, replaces the content and appends a history entry (also for the kind
  none). A validation failure is answered with a 4xx status and a message (section 7), and
  nothing is written.
\<close>

record stored_prompt =
  stored_version :: string
  stored_content :: string
  stored_history :: "(string \<times> string \<times> string) list"

datatype api_error = ApiError nat string

definition update_prompt ::
  "bump_kind \<Rightarrow> string \<Rightarrow> stored_prompt \<Rightarrow> (api_error + stored_prompt) \<times> stored_prompt" where
  "update_prompt kind new_content p =
     (case bump_version kind (stored_version p) of
        Inl msg \<Rightarrow> (Inl (ApiError 400 msg), p)
      | Inr next_version \<Rightarrow>
          (let p' = p\<lparr> stored_version := next_version, stored_content := new_content,
                        stored_history :=
                          stored_history p @ [(''update'', stored_content p, new_content)] \<rparr>
           in (Inr p', p')))"

section \<open>The diff computation\<close>

text \<open>
  Modelled from the spec: the diff service of the backend is not among the sources, and
  the text-diff library it delegates to is not either. The specification (section 4.2)
  asks for a word-level diff of the old and the new content, the counts of additions and
  deletions, a change rate (changed units over total units) and an HTML fragment marking
  insertions and deletions; its example has one deletion and one addition between
  \<open>hello world\<close> and \<open>hello there\<close>. The units are the words between spaces; the edit
  script keeps a common unit and otherwise takes the cheaper of deleting and inserting.
\<close>

datatype 'a edit = Keep 'a | Insert 'a | Delete 'a

fun is_change :: "'a edit \<Rightarrow> bool" where
  "is_change (Keep x) = False"
| "is_change (Insert x) = True"
| "is_change (Delete x) = True"

fun is_insert :: "'a edit \<Rightarrow> bool" where
  "is_insert (Insert x) = True"
| "is_insert e = False"

fun is_delete :: "'a edit \<Rightarrow> bool" where
  "is_delete (Delete x) = True"
| "is_delete e = False"

fun diff_units :: "'a list \<Rightarrow> 'a list \<Rightarrow> 'a edit list" where
  "diff_units [] ys = map Insert ys"
| "diff_units (x # xs) [] = map Delete (x # xs)"
| "diff_units (x # xs) (y # ys) =
     (if x = y then Keep x # diff_units xs ys
      else (let d = Delete x # diff_units xs (y # ys);
                i = Insert y # diff_units (x # xs) ys
            in if length (filter is_change d) \<le> length (filter is_change i) then d else i))"

fun render_edit :: "string edit \<Rightarrow> string" where
  "render_edit (Keep w) = w"
| "render_edit (Insert w) = ''<ins>'' @ w @ ''</ins>''"
| "render_edit (Delete w) = ''<del>'' @ w @ ''</del>''"

fun join_with :: "string \<Rightarrow> string list \<Rightarrow> string" where
  "join_with sep [] = []"
| "join_with sep [w] = w"
| "join_with sep (w # ws) = w @ sep @ join_with sep ws"

record diff_result =
  additions :: nat
  deletions :: nat
  change_rate :: rat
  diff_html :: string

text \<open>Modelled from the spec: the diff of two contents.\<close>

definition compute_diff :: "string \<Rightarrow> string \<Rightarrow> diff_result" where
  "compute_diff old_content new_content =
     (let edits = diff_units (split_on (CHR '' '') old_content) (split_on (CHR '' '') new_content);
          added = length (filter is_insert edits);
          deleted = length (filter is_delete edits)
      in \<lparr> additions = added, deletions = deleted,
           change_rate = (if length edits = 0 then 0
                          else of_nat (added + deleted) / of_nat (length edits)),
           diff_html = join_with '' '' (map render_edit edits) \<rparr>)"







section \<open>Properties of the provider list\<close>

lemma normalize_from_assigned:
  "map is_default (normalize_from i True ps) = replicate (length ps) False"
  by (induction ps arbitrary: i) auto

lemma normalize_from_first:
  "map is_default (normalize_from 0 False (p # ps)) = True # replicate (length ps) False"
  by (simp add: normalize_from_assigned)

lemma normalizeProviders_flags:
  "map is_default (normalizeProviders (p # ps)) = True # replicate (length ps) False"
  unfolding normalizeProviders_def using normalize_from_first by simp

lemma default_count_flags: "default_count ps = length (filter (\<lambda>b. b) (map is_default ps))"
  by (simp add: default_count_def filter_map comp_def)

lemma normalizeProviders_one_default:
  "default_count (normalizeProviders (p # ps)) = 1"
  by (simp add: default_count_flags normalizeProviders_flags)

lemma handleSetDefault_chosen_b:
  "handleSetDefault ''b'' [provider_a\<lparr>is_default := True\<rparr>, provider_b\<lparr>is_default := False\<rparr>]
     = [provider_a, provider_b]"
  by (simp add: handleSetDefault_def provider_a_def provider_b_def)

text \<open>
  C10. Normalisation is claimed to keep the first provider marked as default and to
  promote the first provider only when none is marked. On the list \<open>[a, b]\<close> where only the
  second provider \<open>b\<close> is marked, the code marks \<open>a\<close> and clears \<open>b\<close>: the first provider
  is promoted before the later mark is seen. The removal handler, on the same list, keeps
  \<open>b\<close> as the default.
\<close>

theorem normalizeProviders_drops_later_default:
  "normalizeProviders [provider_a, provider_b]
     = [provider_a\<lparr>is_default := True\<rparr>, provider_b\<lparr>is_default := False\<rparr>]
   \<and> handleRemoveProvider ''fresh'' ''c'' [provider_a, provider_b] = [provider_a, provider_b]"
  by (simp add: normalizeProviders_def handleRemoveProvider_def provider_a_def provider_b_def)

section \<open>Properties of strings\<close>

subsection \<open>Trimming\<close>

lemma rev_dropWhile_split: "rev (dropWhile p (rev t)) @ rev (takeWhile p (rev t)) = t"
  by (metis rev_append rev_rev_ident takeWhile_dropWhile_id)

lemma trim_split: "dropWhile is_space s = trim s @ rev (takeWhile is_space (rev (dropWhile is_space s)))"
  unfolding trim_def by (rule rev_dropWhile_split[symmetric])

lemma takeWhile_all: "list_all p (takeWhile p xs)"
  by (induction xs) auto

lemma trim_decompose:
  "\<exists>w1 w2. s = w1 @ trim s @ w2 \<and> list_all is_space w1 \<and> list_all is_space w2"
proof -
  let ?w2 = "rev (takeWhile is_space (rev (dropWhile is_space s)))"
  have "s = takeWhile is_space s @ dropWhile is_space s" by simp
  then have "s = takeWhile is_space s @ trim s @ ?w2"
    using trim_split[of s] by simp
  moreover have "list_all is_space (takeWhile is_space s)" by (rule takeWhile_all)
  moreover have "list_all is_space ?w2"
    using takeWhile_all[of is_space "rev (dropWhile is_space s)"] by simp
  ultimately show ?thesis by blast
qed

lemma trim_ends:
  assumes "trim s \<noteq> []"
  shows "\<not> is_space (hd (trim s))" and "\<not> is_space (last (trim s))"
proof -
  let ?t = "dropWhile is_space s"
  let ?u = "dropWhile is_space (rev ?t)"
  from assms have u: "?u \<noteq> []" by (simp add: trim_def)
  then have "\<not> is_space (hd ?u)" by (rule hd_dropWhile)
  moreover have "last (trim s) = hd ?u" using u by (simp add: trim_def last_rev)
  ultimately show "\<not> is_space (last (trim s))" by simp
  have t: "?t \<noteq> []"
  proof
    assume e: "?t = []"
    have "?u = []" unfolding e by simp
    with u show False by blast
  qed
  then have nh: "\<not> is_space (hd ?t)" by (rule hd_dropWhile)
  have "hd ?t = hd (trim s)" using trim_split[of s] assms by (metis hd_append2)
  with nh show "\<not> is_space (hd (trim s))" by simp
qed

lemma trim_fixed: "y \<noteq> [] \<Longrightarrow> \<not> is_space (hd y) \<Longrightarrow> \<not> is_space (last y) \<Longrightarrow> trim y = y"
proof -
  assume y: "y \<noteq> []" "\<not> is_space (hd y)" "\<not> is_space (last y)"
  then have a: "dropWhile is_space y = y" by (cases y) auto
  from y have "rev y \<noteq> []" "\<not> is_space (hd (rev y))" by (simp_all add: hd_rev)
  then have b: "dropWhile is_space (rev y) = rev y" by (cases "rev y") auto
  show "trim y = y" unfolding trim_def a b by simp
qed

lemma trim_idem: "trim (trim s) = trim s"
proof (cases "trim s = []")
  case True
  have "trim [] = []" by (simp add: trim_def)
  with True show ?thesis by simp
next
  case False
  from trim_ends[OF False] trim_fixed[OF False] show ?thesis by blast
qed

subsection \<open>Splitting\<close>


lemma split_on_no_separator: "d \<notin> set xs \<Longrightarrow> split_on d xs = [xs]"
  by (induction xs) auto

lemma split_on_separator:
  "d \<notin> set xs \<Longrightarrow> split_on d (xs @ d # ys) = xs # split_on d ys"
  by (induction xs) (auto split: list.splits)

section \<open>Properties of the streaming client\<close>


lemma catch_handler_no_complete: "OnComplete \<notin> set (catch_handler en em)"
  by (simp add: catch_handler_def)






subsection \<open>Reads that hold whole lines\<close>






subsection \<open>Clean events\<close>






subsection \<open>Order and completion\<close>




subsection \<open>The payload of a line\<close>



text \<open>A line across two reads: its head is delivered as a payload, its tail is dropped.\<close>

lemma line_across_reads_example:
  "read_loop Map.empty True [ReadValue ''data: hel'', ReadValue ''lo\<newline>'', ReadDone]
     = [OnData (JString ''hel''), OnComplete]"
  by (simp add: process_chunk_def process_line_def trim_def startsWith_def is_space_def)

section \<open>Properties of the playground page\<close>

subsection \<open>The history list\<close>

lemma settle_saved_histories:
  "histories (persistHistory_settle (Inr saved) st)
     = take 30 (saved # filter (\<lambda>item. history_id item \<noteq> history_id saved) (histories st))"
  by (simp add: persistHistory_settle_def)

lemma save_all_snoc:
  "save_all (saves @ [saved]) st = persistHistory_settle (Inr saved) (save_all saves st)"
  by (simp add: save_all_def)

lemma take_evicts_tail:
  "\<exists>evicted. xs = take n xs @ evicted \<and> (evicted = [] \<or> length (take n xs) = n)"
proof (cases "n \<le> length xs")
  case True
  then have "xs = take n xs @ drop n xs \<and> length (take n xs) = n" by simp
  then show ?thesis by blast
next
  case False
  then have "xs = take n xs @ []" by simp
  then show ?thesis by blast
qed

text \<open>
  C1. After every successful save, whatever saves came before it, the history list has at
  most 30 records and the record just saved is its first; the list is the front of the
  previous list (without an older entry of the same identifier) behind the new record, and
  records are dropped, from the far end, only when 30 are kept.
\<close>

theorem history_retention:
  "length (histories (save_all (saves @ [saved]) st)) \<le> 30
   \<and> histories (save_all (saves @ [saved]) st) \<noteq> []
   \<and> hd (histories (save_all (saves @ [saved]) st)) = saved
   \<and> (\<exists>evicted.
         saved # filter (\<lambda>item. history_id item \<noteq> history_id saved) (histories (save_all saves st))
           = histories (save_all (saves @ [saved]) st) @ evicted
         \<and> (evicted = [] \<or> length (histories (save_all (saves @ [saved]) st)) = 30))"
proof -
  let ?xs = "saved # filter (\<lambda>item. history_id item \<noteq> history_id saved) (histories (save_all saves st))"
  have h: "histories (save_all (saves @ [saved]) st) = take 30 ?xs"
    by (simp only: save_all_snoc settle_saved_histories)
  have "length (take 30 ?xs) \<le> 30" by simp
  moreover have "take 30 ?xs \<noteq> []" by simp
  moreover have "hd (take 30 ?xs) = saved" by simp
  moreover have "\<exists>evicted. ?xs = take 30 ?xs @ evicted \<and> (evicted = [] \<or> length (take 30 ?xs) = 30)"
    by (rule take_evicts_tail)
  ultimately show ?thesis unfolding h by blast
qed

subsection \<open>What is saved\<close>




text \<open>
  The ref also lags behind the chunks whose updates React has not run yet: a stream that
  completes before the next render saves nothing, or a response without its last chunks.
\<close>

lemma chunks_not_rendered_example:
  "save_requests (ui_run (initial_state (Some ''p1'') [])
      [HandleTest False, Render, StreamData 0 ''Hello'', StreamComplete 0]) = []
   \<and> map payload_response (save_requests (ui_run (initial_state (Some ''p1'') [])
      [HandleTest False, Render, StreamData 0 ''Hello'', Render, StreamData 0 '' world'',
       StreamComplete 0])) = [''Hello'']"
  by (simp add: ui_run_def handleTest_def onData_def render_def onComplete_def
      persistHistory_request_def initial_state_def snapshot_of_def
      no_id_def trim_def is_space_def Let_def)

subsection \<open>The active stream\<close>








text \<open>Three clicks in a row: a stream is started, cancelled, and another one started.\<close>

lemma click_starts_and_stops_example:
  "open_streams (page (session_run (mount (Some ''p1'') []) [PageEvent (HandleTest False)])) = [0]
   \<and> open_streams (page (session_run (mount (Some ''p1'') [])
        [PageEvent (HandleTest False), PageEvent (HandleTest False)])) = []
   \<and> open_streams (page (session_run (mount (Some ''p1'') [])
        [PageEvent (HandleTest False), PageEvent (HandleTest False), PageEvent (HandleTest False)])) = [1]"
  by (simp add: session_run_def mount_def handleTest_def initial_state_def Let_def)

section \<open>Properties of the variable extraction\<close>

subsection \<open>First occurrences\<close>

lemma find_literal_sound: "find_literal lit s = Some (b, a) \<Longrightarrow> s = b @ lit @ a"
proof (induction s arbitrary: b)
  case Nil
  then show ?case by (auto split: if_splits)
next
  case (Cons c cs)
  show ?case
  proof (cases "startsWith (c # cs) lit")
    case True
    with Cons.prems have "b = []" "a = drop (length lit) (c # cs)" by auto
    moreover from True have "take (length lit) (c # cs) = lit" by (simp add: startsWith_def)
    ultimately show ?thesis by (metis append_Nil append_take_drop_id)
  next
    case False
    with Cons.prems obtain b' where "find_literal lit cs = Some (b', a)" "b = c # b'"
      by (auto split: option.splits)
    with Cons.IH show ?thesis by simp
  qed
qed

lemma startsWith_append: "startsWith (lit @ v) lit"
  by (simp add: startsWith_def)

lemma find_literal_first:
  "find_literal lit s = Some (b, a) \<Longrightarrow> s = u @ lit @ v \<Longrightarrow> length b \<le> length u"
proof (induction s arbitrary: b u)
  case Nil
  then show ?case by (auto split: if_splits)
next
  case (Cons c cs)
  show ?case
  proof (cases "startsWith (c # cs) lit")
    case True
    with Cons.prems(1) have "b = []" by simp
    then show ?thesis by simp
  next
    case False
    with Cons.prems(1) obtain b' where b': "find_literal lit cs = Some (b', a)" "b = c # b'"
      by (auto split: option.splits)
    from False Cons.prems(2) have "u \<noteq> []"
      using startsWith_append[of lit v] by (cases u) auto
    then obtain u' where u': "u = c # u'" "cs = u' @ lit @ v"
      using Cons.prems(2) by (cases u) auto
    from Cons.IH[OF b'(1) u'(2)] show ?thesis using b'(2) u'(1) by simp
  qed
qed

lemma find_literal_None: "find_literal lit s = None \<Longrightarrow> s \<noteq> u @ lit @ v"
proof (induction s arbitrary: u)
  case Nil
  then show ?case by (auto split: if_splits)
next
  case (Cons c cs)
  from Cons.prems have ns: "\<not> startsWith (c # cs) lit" and n: "find_literal lit cs = None"
    by (auto split: if_splits option.splits)
  show ?case
  proof
    assume eq: "c # cs = u @ lit @ v"
    show False
    proof (cases u)
      case Nil
      with eq ns show False using startsWith_append[of lit v] by simp
    next
      case (Cons d u')
      with eq have "cs = u' @ lit @ v" by simp
      with Cons.IH[OF n] show False by blast
    qed
  qed
qed

lemma find_literal_skip:
  "find_literal lit (u @ x) = Some (u @ b, a) \<Longrightarrow> b \<noteq> [] \<Longrightarrow> find_literal lit x = Some (b, a)"
  by (induction u) (auto split: if_splits option.splits)

subsection \<open>The matcher\<close>

lemma literal_at_sound: "literal_at lit s = Some r \<Longrightarrow> s = lit @ r"
  by (auto simp: literal_at_def startsWith_def split: if_splits)
    (metis append_take_drop_id)

lemma literal_at_append: "literal_at lit (lit @ r) = Some r"
  by (simp add: literal_at_def startsWith_def)

lemma ws_then_suffix_sound:
  "ws_then_suffix S s = Some r \<Longrightarrow> \<exists>ws. s = ws @ S @ r \<and> list_all is_space ws"
proof (induction s)
  case Nil
  then have "[] = [] @ S @ r \<and> list_all is_space []"
    by (auto dest: literal_at_sound)
  then show ?case by blast
next
  case (Cons c cs)
  show ?case
  proof (cases "is_space c \<and> ws_then_suffix S cs \<noteq> None")
    case True
    with Cons.prems have "ws_then_suffix S cs = Some r" by auto
    from Cons.IH[OF this] obtain ws where "cs = ws @ S @ r" "list_all is_space ws" by blast
    with True have "c # cs = (c # ws) @ S @ r \<and> list_all is_space (c # ws)" by simp
    then show ?thesis by blast
  next
    case False
    with Cons.prems have "literal_at S (c # cs) = Some r"
      by (auto split: if_splits option.splits)
    then have "c # cs = [] @ S @ r \<and> list_all is_space []"
      by (auto dest: literal_at_sound)
    then show ?thesis by blast
  qed
qed

lemma ws_then_suffix_complete:
  assumes "S \<noteq> []" "\<not> is_space (hd S)"
  shows "list_all is_space w \<Longrightarrow> ws_then_suffix S (w @ S @ rest) = Some rest"
proof (induction w)
  case Nil
  from assms obtain d ds where S: "S = d # ds" "\<not> is_space d" by (cases S) auto
  then show ?case using literal_at_append[of S rest] by simp
next
  case (Cons c w)
  then show ?case by simp
qed

lemma lazy_group_sound:
  "lazy_group S s = Some (g, r) \<Longrightarrow> \<exists>ws. s = g @ ws @ S @ r \<and> g \<noteq> []"
proof (induction s arbitrary: g)
  case Nil
  then show ?case by simp
next
  case (Cons c cs)
  from Cons.prems have nl: "\<not> is_line_terminator c" by (auto split: if_splits)
  show ?case
  proof (cases "ws_then_suffix S cs")
    case (Some r')
    with Cons.prems nl have g: "g = [c]" "r' = r" by auto
    from ws_then_suffix_sound[OF Some] obtain ws where "cs = ws @ S @ r'" by blast
    with g have "c # cs = g @ ws @ S @ r \<and> g \<noteq> []" by simp
    then show ?thesis by blast
  next
    case None
    with Cons.prems nl obtain g' where g': "lazy_group S cs = Some (g', r)" "g = c # g'"
      by (auto split: option.splits)
    from Cons.IH[OF g'(1)] obtain ws where "cs = g' @ ws @ S @ r" by blast
    with g'(2) have "c # cs = g @ ws @ S @ r \<and> g \<noteq> []" by simp
    then show ?thesis by blast
  qed
qed

lemma ws_then_group_sound:
  "ws_then_group S s = Some (g, r) \<Longrightarrow> \<exists>y. s = y @ S @ r"
proof (induction s)
  case Nil
  then show ?case by simp
next
  case (Cons c cs)
  show ?case
  proof (cases "is_space c \<and> ws_then_group S cs \<noteq> None")
    case True
    with Cons.prems have "ws_then_group S cs = Some (g, r)" by auto
    from Cons.IH[OF this] obtain y where "cs = y @ S @ r" by blast
    then have "c # cs = (c # y) @ S @ r" by simp
    then show ?thesis by blast
  next
    case False
    with Cons.prems have "lazy_group S (c # cs) = Some (g, r)"
      by (auto split: if_splits option.splits)
    from lazy_group_sound[OF this] obtain ws where "c # cs = (g @ ws) @ S @ r" by auto
    then show ?thesis by blast
  qed
qed

lemma match_here_sound:
  "match_here P S s = Some (g, r) \<Longrightarrow> \<exists>y. s = P @ y @ S @ r"
  by (auto simp: match_here_def split: option.splits
      dest!: literal_at_sound ws_then_group_sound)

lemma exec_scan_sound:
  "exec_scan P S s = Some (g, r) \<Longrightarrow> \<exists>a y. s = a @ P @ y @ S @ r"
proof (induction s)
  case Nil
  then show ?case using match_here_sound[of P S "[]" g r] by (metis append_Nil exec_scan.simps(1))
next
  case (Cons c cs)
  show ?case
  proof (cases "match_here P S (c # cs)")
    case None
    with Cons.prems have "exec_scan P S cs = Some (g, r)" by simp
    from Cons.IH[OF this] obtain a y where "cs = a @ P @ y @ S @ r" by blast
    then have "c # cs = (c # a) @ P @ y @ S @ r" by simp
    then show ?thesis by blast
  next
    case (Some res)
    with Cons.prems have "match_here P S (c # cs) = Some (g, r)" by simp
    from match_here_sound[OF this] obtain y where "c # cs = [] @ P @ y @ S @ r" by auto
    then show ?thesis by blast
  qed
qed

lemma lazy_group_finds:
  assumes S: "S \<noteq> []" "\<not> is_space (hd S)"
  shows "find_literal S x = Some (b @ w, rest) \<Longrightarrow> b \<noteq> [] \<Longrightarrow> \<not> list_ex is_line_terminator b
    \<Longrightarrow> \<not> is_space (last b) \<Longrightarrow> list_all is_space w \<Longrightarrow> lazy_group S x = Some (b, rest)"
proof (induction b arbitrary: x)
  case Nil
  then show ?case by simp
next
  case (Cons c b)
  from find_literal_sound[OF Cons.prems(1)] have x: "x = c # (b @ w @ S @ rest)" by simp
  from Cons.prems(3) have nl: "\<not> is_line_terminator c" by simp
  show ?case
  proof (cases "b = []")
    case True
    with x have "x = c # (w @ S @ rest)" by simp
    moreover have "ws_then_suffix S (w @ S @ rest) = Some rest"
      using ws_then_suffix_complete[OF S Cons.prems(5)] .
    ultimately show ?thesis using nl True by simp
  next
    case False
    have fl: "find_literal S (b @ w @ S @ rest) = Some (b @ w, rest)"
      using Cons.prems(1) x by (auto split: if_splits option.splits)
    have none: "ws_then_suffix S (b @ w @ S @ rest) = None"
    proof (rule ccontr)
      assume "ws_then_suffix S (b @ w @ S @ rest) \<noteq> None"
      then obtain r where "ws_then_suffix S (b @ w @ S @ rest) = Some r" by auto
      from ws_then_suffix_sound[OF this] obtain ws
        where ws: "b @ w @ S @ rest = ws @ S @ r" "list_all is_space ws" by blast
      from find_literal_first[OF fl ws(1)] have "length b \<le> length ws" by simp
      with ws(1) have "b = take (length b) ws"
        by (metis append_eq_append_conv_if append_eq_conv_conj)
      then have "set b \<subseteq> set ws" by (metis set_take_subset)
      with False have "last b \<in> set ws" by auto
      with ws(2) have "is_space (last b)" by (simp add: list_all_iff)
      with Cons.prems(4) False show False by simp
    qed
    have "lazy_group S (b @ w @ S @ rest) = Some (b, rest)"
      using Cons.IH[OF fl False] Cons.prems(3,4,5) False by simp
    with none nl x show ?thesis by simp
  qed
qed

lemma ws_then_group_finds:
  "list_all is_space w \<Longrightarrow> lazy_group S (c # cs) = Some res \<Longrightarrow> \<not> is_space c
    \<Longrightarrow> ws_then_group S (w @ c # cs) = Some res"
  by (induction w) auto

subsection \<open>The expression on a plain placeholder\<close>

lemma ws_then_group_placeholder:
  assumes S: "S \<noteq> []" "\<not> is_space (hd S)"
    and fl: "find_literal S r = Some (between, rest)"
    and plain: "plain_placeholder between"
  shows "ws_then_group S r = Some (trim between, rest)"
proof -
  from plain have ne: "trim between \<noteq> []" and nl: "\<not> list_ex is_line_terminator (trim between)"
    by (simp_all add: plain_placeholder_def)
  from trim_decompose[of between] obtain w1 w2
    where d: "between = w1 @ trim between @ w2" "list_all is_space w1" "list_all is_space w2"
    by blast
  let ?x = "trim between @ w2 @ S @ rest"
  from find_literal_sound[OF fl] d(1) have r: "r = w1 @ ?x" by (metis append.assoc)
  have "find_literal S (w1 @ ?x) = Some (w1 @ (trim between @ w2), rest)"
    using fl r d(1) by simp
  moreover have "trim between @ w2 \<noteq> []" using ne by simp
  ultimately have fx: "find_literal S ?x = Some (trim between @ w2, rest)"
    by (rule find_literal_skip)
  have lg: "lazy_group S ?x = Some (trim between, rest)"
    using lazy_group_finds[OF S fx ne nl trim_ends(2)[OF ne] d(3)] .
  from ne obtain c cs where x: "?x = c # cs" "hd (trim between) = c"
    by (cases "trim between") auto
  with trim_ends(1)[OF ne] have "\<not> is_space c" by simp
  with ws_then_group_finds[OF d(2), of S c cs] lg x(1) r show ?thesis by simp
qed

lemma exec_scan_first_prefix:
  "find_literal P s = Some (pre, r) \<Longrightarrow> ws_then_group S r = Some res
    \<Longrightarrow> exec_scan P S s = Some res"
proof (induction s arbitrary: pre)
  case Nil
  then have "r = []" by (auto split: if_splits)
  with Nil.prems(2) show ?case by simp
next
  case (Cons c cs)
  show ?case
  proof (cases "startsWith (c # cs) P")
    case True
    with Cons.prems have "match_here P S (c # cs) = Some res"
      by (simp add: match_here_def literal_at_def)
    then show ?thesis by simp
  next
    case False
    with Cons.prems(1) obtain pre' where "find_literal P cs = Some (pre', r)"
      by (auto split: option.splits)
    from Cons.IH[OF this Cons.prems(2)] False show ?thesis
      by (simp add: match_here_def literal_at_def)
  qed
qed

lemma exec_scan_no_prefix: "find_literal P s = None \<Longrightarrow> exec_scan P S s = None"
  by (induction s) (auto simp: match_here_def literal_at_def startsWith_def split: if_splits option.splits)

lemma exec_scan_unclosed:
  assumes P: "find_literal P s = Some (pre, r)" and S: "find_literal S r = None"
  shows "exec_scan P S s = None"
proof (rule ccontr)
  assume "exec_scan P S s \<noteq> None"
  then obtain g rest where "exec_scan P S s = Some (g, rest)" by auto
  from exec_scan_sound[OF this] obtain a y where s: "s = a @ P @ y @ S @ rest" by blast
  from find_literal_first[OF P s] have le: "length pre \<le> length a" .
  from find_literal_sound[OF P] have "s = pre @ P @ r" .
  then have "r = drop (length pre + length P) s" by simp
  also have "\<dots> = drop (length pre + length P) ((a @ P) @ y @ S @ rest)" using s by simp
  also have "\<dots> = drop (length pre + length P) (a @ P) @ y @ S @ rest"
    using le by simp
  finally have "r = (drop (length pre + length P) (a @ P) @ y) @ S @ rest" by simp
  with find_literal_None[OF S] show False by blast
qed

lemma all_captures_plain:
  "list_all plain_placeholder (spec_placeholders P S s)
    \<Longrightarrow> P \<noteq> [] \<Longrightarrow> S \<noteq> [] \<Longrightarrow> \<not> is_space (hd S)
    \<Longrightarrow> all_captures P S s = map trim (spec_placeholders P S s)"
proof (induction P S s rule: spec_placeholders.induct)
  case (1 P S s)
  note ne = \<open>P \<noteq> []\<close> \<open>S \<noteq> []\<close> and hd = \<open>\<not> is_space (hd S)\<close>
  show ?case
  proof (cases "find_literal P s")
    case None
    have "exec_scan P S s = None" using None by (rule exec_scan_no_prefix)
    moreover have "spec_placeholders P S s = []"
      using None by (simp add: spec_placeholders.simps[of P S s])
    ultimately show ?thesis by (simp add: all_captures.simps[of P S s])
  next
    case (Some pr)
    obtain pre r where pr: "pr = (pre, r)" by (cases pr)
    with Some have fp: "find_literal P s = Some (pre, r)" by simp
    show ?thesis
    proof (cases "find_literal S r")
      case None
      have "exec_scan P S s = None" using fp None by (rule exec_scan_unclosed)
      moreover have "spec_placeholders P S s = []"
        using fp None by (simp add: spec_placeholders.simps[of P S s])
      ultimately show ?thesis by (simp add: all_captures.simps[of P S s])
    next
      case (Some br)
      obtain between rest where br: "br = (between, rest)" by (cases br)
      with Some have fs: "find_literal S r = Some (between, rest)" by simp
      have sp: "spec_placeholders P S s = between # spec_placeholders P S rest"
        using ne fp fs by (simp add: spec_placeholders.simps[of P S s])
      with "1.prems"(1) have plain: "plain_placeholder between"
        and plains: "list_all plain_placeholder (spec_placeholders P S rest)" by simp_all
      have "ws_then_group S r = Some (trim between, rest)"
        using ne(2) hd fs plain by (rule ws_then_group_placeholder)
      with fp have ex: "exec_scan P S s = Some (trim between, rest)"
        by (rule exec_scan_first_prefix)
      have n: "\<not> (P = [] \<or> S = [])" using ne by simp
      have ih: "all_captures P S rest = map trim (spec_placeholders P S rest)"
        using "1.IH"[OF n fp refl fs refl plains ne hd] .
      have "all_captures P S s = trim between # all_captures P S rest"
        using ex by (simp add: all_captures.simps[of P S s])
      with ih sp show ?thesis by simp
    qed
  qed
qed

lemma set_foldl_add_var: "set (foldl add_var acc xs) = set acc \<union> set xs"
  by (induction xs arbitrary: acc) (auto simp: add_var_def)

lemma distinct_foldl_add_var: "distinct acc \<Longrightarrow> distinct (foldl add_var acc xs)"
  by (induction xs arbitrary: acc) (auto simp: add_var_def)

lemma captures_of_messages:
  assumes "P \<noteq> []" "S \<noteq> []" "\<not> is_space (hd S)"
  shows "list_all (plain_message P S) msgs \<Longrightarrow>
    concat (map (\<lambda>msg. map trim (all_captures P S (content msg))) msgs)
      = map trim (concat (map (\<lambda>msg. spec_placeholders P S (content msg)) msgs))"
proof (induction msgs)
  case Nil
  then show ?case by simp
next
  case (Cons msg msgs)
  then have "list_all plain_placeholder (spec_placeholders P S (content msg))"
    by (simp add: plain_message_def)
  from all_captures_plain[OF this assms]
  have "map trim (all_captures P S (content msg)) = map trim (spec_placeholders P S (content msg))"
    by (simp add: trim_idem)
  with Cons show ?case by simp
qed

text \<open>
  C7, amended. For a non-empty prefix and a non-empty suffix that does not begin with
  white space, and messages in which every text between a prefix and the nearest suffix
  after it is not blank and, trimmed, lies on one line, the extracted variables are
  exactly the distinct trimmed texts between a prefix and the nearest following suffix.
  With an empty prefix or suffix the effect returns at once and leaves the page's state,
  its list of variables included, as it was.
\<close>

theorem extracted_variables_match_spec:
  assumes "P \<noteq> []" "S \<noteq> []" "\<not> is_space (hd S)" "list_all (plain_message P S) msgs"
  shows "set (extract_variables P S msgs) = spec_variables P S msgs
    \<and> distinct (extract_variables P S msgs)
    \<and> (variablePrefix st = [] \<or> variableSuffix st = [] \<longrightarrow> extract_effect st = st)"
proof -
  have "set (extract_variables P S msgs)
      = set (concat (map (\<lambda>msg. map trim (all_captures P S (content msg))) msgs))"
    unfolding extract_variables_def by (simp only: set_foldl_add_var) simp
  also have "\<dots> = spec_variables P S msgs"
    unfolding spec_variables_def by (simp only: captures_of_messages[OF assms])
  finally have "set (extract_variables P S msgs) = spec_variables P S msgs" .
  moreover have "distinct (extract_variables P S msgs)"
    unfolding extract_variables_def by (rule distinct_foldl_add_var) simp
  moreover have "variablePrefix st = [] \<or> variableSuffix st = [] \<longrightarrow> extract_effect st = st"
    by (simp add: extract_effect_def)
  ultimately show ?thesis by blast
qed

theorem extracted_variables_match_spec_witness:
  "set (extract_variables ''{{'' ''}}''
          [\<lparr>message_id = ''user-1'', role = ''user'', content = ''Hi {{ name }}, {{x}} {{name}}''\<rparr>])
     = spec_variables ''{{'' ''}}''
          [\<lparr>message_id = ''user-1'', role = ''user'', content = ''Hi {{ name }}, {{x}} {{name}}''\<rparr>]
   \<and> extract_variables ''{{'' ''}}''
          [\<lparr>message_id = ''user-1'', role = ''user'', content = ''Hi {{ name }}, {{x}} {{name}}''\<rparr>]
     = [''name'', ''x'']
   \<and> extract_effect ((initial_state None [])\<lparr>variablePrefix := [], variables := [''old'']\<rparr>)
     = (initial_state None [])\<lparr>variablePrefix := [], variables := [''old'']\<rparr>"
proof -
  let ?msgs = "[\<lparr>message_id = ''user-1'', role = ''user'', content = ''Hi {{ name }}, {{x}} {{name}}''\<rparr>]"
  let ?st = "(initial_state None [])\<lparr>variablePrefix := [], variables := [''old'']\<rparr>"
  have p: "''{{'' \<noteq> []" and s: "''}}'' \<noteq> []" by simp_all
  have h: "\<not> is_space (hd ''}}'')" by (simp add: is_space_def)
  have plain: "list_all (plain_message ''{{'' ''}}'') ?msgs" by code_simp
  have names: "extract_variables ''{{'' ''}}'' ?msgs = [''name'', ''x'']" by code_simp
  have empty: "variablePrefix ?st = []" by simp
  show ?thesis
    using extracted_variables_match_spec[OF p s h plain, of ?st] names empty by simp
qed

text \<open>
  C7, as stated: in the message \<open>{{a\<close>, line break, \<open>b}}\<close> the text between the prefix
  and the nearest following suffix is \<open>a\<close>, line break, \<open>b\<close>, yet no variable is
  extracted, because \<open>.\<close> does not match a line terminator.
\<close>

theorem extracted_variables_line_break_counterexample:
  "extract_variables ''{{'' ''}}''
      [\<lparr>message_id = ''user-1'', role = ''user'', content = ''{{a\<newline>b}}''\<rparr>] = []
   \<and> spec_variables ''{{'' ''}}''
      [\<lparr>message_id = ''user-1'', role = ''user'', content = ''{{a\<newline>b}}''\<rparr>] = {''a\<newline>b''}"
  by code_simp

text \<open>
  Two more texts on which the expression and the wording part: an empty placeholder is
  skipped and its closing suffix is taken into the next name, and a suffix that begins
  with white space is found at its last position in a run of white space.
\<close>

lemma extracted_variables_empty_placeholder:
  "extract_variables ''{{'' ''}}''
      [\<lparr>message_id = ''user-1'', role = ''user'', content = ''{{}} and {{x}}''\<rparr>] = [''}} and {{x'']"
  by code_simp

lemma all_captures_space_suffix:
  "exec_scan ''{{'' ''  '' ''{{a    b'' = Some (''a'', ''b'')
   \<and> spec_placeholders ''{{'' ''  '' ''{{a    b'' = [''a'']
   \<and> find_literal ''  '' ''a    b'' = Some (''a'', ''  b'')"
  by code_simp

section \<open>Properties of the versioning rule and of the diff\<close>

lemma digit_char_code: "d < 10 \<Longrightarrow> (of_char (digit_char d) :: nat) = 48 + d"
  by (simp add: digit_char_def)

lemma digit_char_is_digit: "d < 10 \<Longrightarrow> is_digit (digit_char d)"
  by (simp add: is_digit_def digit_char_code)

lemma digit_char_not_dot: "d < 10 \<Longrightarrow> digit_char d \<noteq> CHR ''.''"
proof
  assume d: "d < 10" and "digit_char d = CHR ''.''"
  then have "(of_char (digit_char d) :: nat) = of_char (CHR ''.'')" by simp
  with d show False by (simp add: digit_char_code)
qed

lemma show_nat_digits: "list_all is_digit (show_nat n) \<and> show_nat n \<noteq> [] \<and> CHR ''.'' \<notin> set (show_nat n)"
proof (induction n rule: show_nat.induct)
  case (1 n)
  show ?case
  proof (cases "n < 10")
    case True
    then show ?thesis
      using digit_char_is_digit[of n] digit_char_not_dot[of n]
      by (auto simp: show_nat.simps[of n])
  next
    case False
    have "n mod 10 < 10" by simp
    then show ?thesis
      using False "1.IH" digit_char_is_digit[of "n mod 10"] digit_char_not_dot[of "n mod 10"]
      by (auto simp: show_nat.simps[of n])
  qed
qed

lemma digits_value_snoc: "digits_value (ds @ [c]) = 10 * digits_value ds + (of_char c - 48)"
  by (simp add: digits_value_def)

lemma digits_value_show_nat: "digits_value (show_nat n) = n"
proof (induction n rule: show_nat.induct)
  case (1 n)
  show ?case
  proof (cases "n < 10")
    case True
    then show ?thesis
      by (simp add: show_nat.simps[of n] digits_value_def digit_char_code)
  next
    case False
    have "n mod 10 < 10" by simp
    then have "(of_char (digit_char (n mod 10)) :: nat) - 48 = n mod 10"
      by (simp add: digit_char_code)
    with False "1.IH" show ?thesis
      by (simp add: show_nat.simps[of n] digits_value_snoc)
  qed
qed

lemma parse_component_show_nat: "parse_component (show_nat n) = Some n"
  using show_nat_digits[of n] by (simp add: parse_component_def digits_value_show_nat)

lemma split_rendered:
  "split_on (CHR ''.'') (render_version (a, b, c)) = [show_nat a, show_nat b, show_nat c]"
proof -
  have a: "CHR ''.'' \<notin> set (show_nat a)" and b: "CHR ''.'' \<notin> set (show_nat b)"
    and c: "CHR ''.'' \<notin> set (show_nat c)"
    using show_nat_digits by blast+
  have "render_version (a, b, c)
      = show_nat a @ CHR ''.'' # (show_nat b @ CHR ''.'' # show_nat c)"
    by (simp add: render_version_def)
  then show ?thesis
    by (simp only: split_on_separator[OF a] split_on_separator[OF b] split_on_no_separator[OF c])
qed

lemma parse_rendered: "parse_version (render_version (a, b, c)) = Some (a, b, c)"
  by (simp add: parse_version_def split_rendered parse_component_show_nat)

lemma bump_version_parses:
  "parse_version v = Some x \<Longrightarrow> kind \<noteq> NoBump \<Longrightarrow>
     \<exists>v'. bump_version kind v = Inr v' \<and> parse_version v' = Some (bump_components kind x)"
proof -
  assume p: "parse_version v = Some x" and k: "kind \<noteq> NoBump"
  obtain a b c where "bump_components kind x = (a, b, c)" by (cases "bump_components kind x")
  then have "parse_version (render_version (bump_components kind x)) = Some (bump_components kind x)"
    by (simp add: parse_rendered)
  with p k show ?thesis by (simp add: bump_version_def)
qed

text \<open>
  C4. For a well-formed version string, a major, minor or patch bump gives a well-formed
  string whose components are the old ones with the component of that kind incremented
  and the lower ones zeroed, which is a greater version; the kind none gives the string
  itself. In particular \<open>1.2.3\<close> becomes \<open>1.3.0\<close> under minor and stays \<open>1.2.3\<close> under
  none.
\<close>

theorem bump_version_rule:
  assumes "parse_version v = Some (a, b, c)"
  shows "(\<exists>v'. bump_version Major v = Inr v' \<and> parse_version v' = Some (a + 1, 0, 0))
    \<and> (\<exists>v'. bump_version Minor v = Inr v' \<and> parse_version v' = Some (a, b + 1, 0))
    \<and> (\<exists>v'. bump_version Patch v = Inr v' \<and> parse_version v' = Some (a, b, c + 1))
    \<and> bump_version NoBump v = Inr v
    \<and> version_less (a, b, c) (bump_components Major (a, b, c))
    \<and> version_less (a, b, c) (bump_components Minor (a, b, c))
    \<and> version_less (a, b, c) (bump_components Patch (a, b, c))
    \<and> bump_version Minor ''1.2.3'' = Inr ''1.3.0''
    \<and> bump_version NoBump ''1.2.3'' = Inr ''1.2.3''"
proof -
  have "\<exists>v'. bump_version Major v = Inr v' \<and> parse_version v' = Some (a + 1, 0, 0)"
    using bump_version_parses[OF assms, of Major] by simp
  moreover have "\<exists>v'. bump_version Minor v = Inr v' \<and> parse_version v' = Some (a, b + 1, 0)"
    using bump_version_parses[OF assms, of Minor] by simp
  moreover have "\<exists>v'. bump_version Patch v = Inr v' \<and> parse_version v' = Some (a, b, c + 1)"
    using bump_version_parses[OF assms, of Patch] by simp
  moreover have "bump_version NoBump v = Inr v"
    using assms by (simp add: bump_version_def)
  moreover have "version_less (a, b, c) (bump_components Major (a, b, c))"
    "version_less (a, b, c) (bump_components Minor (a, b, c))"
    "version_less (a, b, c) (bump_components Patch (a, b, c))"
    by (simp_all add: version_less_def)
  moreover have "bump_version Minor ''1.2.3'' = Inr ''1.3.0''" by code_simp
  moreover have "bump_version NoBump ''1.2.3'' = Inr ''1.2.3''" by code_simp
  ultimately show ?thesis by blast
qed

theorem bump_version_rule_witness:
  "parse_version ''9.12.3'' = Some (9, 12, 3)
   \<and> bump_version Major ''9.12.3'' = Inr ''10.0.0''
   \<and> bump_version Minor ''9.12.3'' = Inr ''9.13.0''
   \<and> bump_version Patch ''9.12.3'' = Inr ''9.12.4''
   \<and> bump_version NoBump ''9.12.3'' = Inr ''9.12.3''
   \<and> version_less (9, 12, 3) (bump_components Major (9, 12, 3))"
proof -
  have p: "parse_version ''9.12.3'' = Some (9, 12, 3)" by code_simp
  have e: "bump_version Major ''9.12.3'' = Inr ''10.0.0''"
    "bump_version Minor ''9.12.3'' = Inr ''9.13.0''"
    "bump_version Patch ''9.12.3'' = Inr ''9.12.4''" by code_simp+
  from bump_version_rule[OF p] e p show ?thesis by simp
qed

text \<open>
  C5. When the stored version of a prompt is malformed, the update is answered with a 4xx
  error that carries the bump function's message, no next version is produced, and the
  stored prompt is what it was.
\<close>

theorem malformed_version_fails:
  assumes "parse_version (stored_version p) = None"
  shows "\<exists>status msg. update_prompt kind new_content p = (Inl (ApiError status msg), p)
      \<and> 400 \<le> status \<and> status < 500
      \<and> bump_version kind (stored_version p) = Inl msg"
  using assms by (simp add: update_prompt_def bump_version_def)

theorem malformed_version_fails_witness:
  "parse_version ''1.x'' = None
   \<and> (\<exists>status msg. update_prompt Minor ''new''
          \<lparr>stored_version = ''1.x'', stored_content = ''old'', stored_history = []\<rparr>
        = (Inl (ApiError status msg),
           \<lparr>stored_version = ''1.x'', stored_content = ''old'', stored_history = []\<rparr>)
        \<and> 400 \<le> status \<and> status < 500)"
proof -
  have n: "parse_version ''1.x'' = None" by code_simp
  then have "parse_version (stored_version
      \<lparr>stored_version = ''1.x'', stored_content = ''old'', stored_history = []\<rparr>) = None" by simp
  from malformed_version_fails[OF this, of Minor "''new''"] n show ?thesis by auto
qed

subsection \<open>The diff\<close>







text \<open>The specification's example: one deletion and one addition.\<close>

lemma diff_example:
  "additions (compute_diff ''hello world'' ''hello there'') = 1
   \<and> deletions (compute_diff ''hello world'' ''hello there'') = 1"
  by code_simp

end
